theory Spec2Isabelle
  imports Main "HOL-Library.Sublist" "HOL-Library.Multiset"
begin

section \<open>Strings\<close>

text \<open>
  A Python \<open>str\<close> is the list of its code points, each an integer, so \<open>len\<close> is \<open>length\<close>.
  A literal of the program is written \<open>str_of ''...''\<close>, and one character \<open>ch CHR ''...''\<close>.
\<close>

type_synonym str = "int list"

definition str_of :: "string \<Rightarrow> str" where
  "str_of s = map of_char s"

definition ch :: "char \<Rightarrow> int" where
  "ch c = of_char c"

text \<open>
  What the program takes from the Unicode tables and from the standard library, as
  parameters; on ASCII characters the operations below are fixed.
  \<^item> \<open>lower_nonascii s i\<close>: what \<open>s.lower()\<close> puts for the non-ASCII character at index \<open>i\<close>
    of \<open>s\<close> (one or more characters; for a capital sigma it depends on its neighbours);
  \<^item> \<open>isspace_nonascii c\<close>: the non-ASCII character \<open>c\<close> is whitespace for \<open>str.strip\<close>;
  \<^item> \<open>isdecimal_nonascii c\<close>: the non-ASCII character \<open>c\<close> matches \<open>\d\<close>;
  \<^item> \<open>nfkc s\<close>: \<open>unicodedata.normalize('NFKC', s)\<close>;
  \<^item> \<open>bracketed_netloc_ok netloc\<close>: the check that \<open>urlsplit\<close> makes of a network location
    with both an opening and a closing bracket returns (\<open>_check_bracketed_host\<close> on the
    text between the brackets, which asks \<open>ipaddress\<close>; later releases check more of the
    network location).
\<close>

record pylib =
  lower_nonascii :: "str \<Rightarrow> nat \<Rightarrow> str"
  isspace_nonascii :: "int \<Rightarrow> bool"
  isdecimal_nonascii :: "int \<Rightarrow> bool"
  nfkc :: "str \<Rightarrow> str"
  bracketed_netloc_ok :: "str \<Rightarrow> bool"

definition is_upper :: "int \<Rightarrow> bool" where
  "is_upper c \<longleftrightarrow> 65 \<le> c \<and> c \<le> 90"

definition is_lower :: "int \<Rightarrow> bool" where
  "is_lower c \<longleftrightarrow> 97 \<le> c \<and> c \<le> 122"

definition is_digit :: "int \<Rightarrow> bool" where
  "is_digit c \<longleftrightarrow> 48 \<le> c \<and> c \<le> 57"

definition lower_ascii :: "int \<Rightarrow> int" where
  "lower_ascii c = (if is_upper c then c + 32 else c)"

text \<open>
  \<open>s.lower()\<close>, character by character: \<open>lower_from L s i cs\<close> lowers the rest \<open>cs\<close> of \<open>s\<close>
  that starts at index \<open>i\<close>.
\<close>

fun lower_from :: "pylib \<Rightarrow> str \<Rightarrow> nat \<Rightarrow> str \<Rightarrow> str" where
  "lower_from L s i [] = []"
| "lower_from L s i (c # cs) =
     (if c < 128 then [lower_ascii c] else lower_nonascii L s i) @ lower_from L s (Suc i) cs"

definition lower :: "pylib \<Rightarrow> str \<Rightarrow> str" where
  "lower L s = lower_from L s 0 s"

text \<open>
  The whitespace of \<open>str.strip\<close>: of the ASCII characters the tab, line feed, vertical tab,
  form feed, carriage return, the four separators \<open>0x1c\<close> to \<open>0x1f\<close> and the space.
\<close>

definition isspace :: "pylib \<Rightarrow> int \<Rightarrow> bool" where
  "isspace L c \<longleftrightarrow>
     (if c < 128 then (9 \<le> c \<and> c \<le> 13) \<or> (28 \<le> c \<and> c \<le> 32) else isspace_nonascii L c)"

text \<open>\<open>s.strip()\<close>\<close>

definition strip :: "pylib \<Rightarrow> str \<Rightarrow> str" where
  "strip L s = rev (dropWhile (isspace L) (rev (dropWhile (isspace L) s)))"

text \<open>\<open>sub in s\<close>: \<open>sub\<close> occurs in \<open>s\<close> as a contiguous run.\<close>

fun py_in :: "'a list \<Rightarrow> 'a list \<Rightarrow> bool" where
  "py_in sub [] = (sub = [])"
| "py_in sub (c # cs) = (prefix sub (c # cs) \<or> py_in sub cs)"

text \<open>\<open>s.startswith(p)\<close>\<close>

definition startswith :: "str \<Rightarrow> str \<Rightarrow> bool" where
  "startswith s p = prefix p s"

text \<open>\<open>x or ""\<close> on a \<open>str\<close>: the empty string is the only falsy one.\<close>

definition or_empty :: "str \<Rightarrow> str" where
  "or_empty s = (if s = [] then [] else s)"

text \<open>\<open>s.count(c)\<close> for one character.\<close>

definition count_char :: "int \<Rightarrow> str \<Rightarrow> nat" where
  "count_char c s = length (filter (\<lambda>x. x = c) s)"

section \<open>Errors\<close>

datatype py_error = ValueError

section \<open>Rule-based URL detection\<close>

subsection \<open>The dotted-quad pattern\<close>

text \<open>The class \<open>\d\<close> of a \<open>str\<close> pattern: the decimal digits of Unicode.\<close>

definition re_digit :: "pylib \<Rightarrow> int \<Rightarrow> bool" where
  "re_digit L c \<longleftrightarrow> (if c < 128 then is_digit c else isdecimal_nonascii L c)"

text \<open>
  \<open>re.compile(r'(\d{1,3}\.){3}\d{1,3}').search(url)\<close>, by backtracking: each function
  returns the remainders of the input after every way its part of the pattern can match at
  the front, the longest repetition first.
\<close>

definition digits_1_3 :: "pylib \<Rightarrow> str \<Rightarrow> str list" where
  "digits_1_3 L s = [drop k s. k \<leftarrow> [3, 2, 1], k \<le> length s \<and> list_all (re_digit L) (take k s)]"

definition digits_dot :: "pylib \<Rightarrow> str \<Rightarrow> str list" where
  "digits_dot L s = [tl r. r \<leftarrow> digits_1_3 L s, r \<noteq> [] \<and> hd r = ch CHR ''.'']"

definition ip_match_here :: "pylib \<Rightarrow> str \<Rightarrow> bool" where
  "ip_match_here L s \<longleftrightarrow>
     concat (map (digits_1_3 L)
       (concat (map (digits_dot L) (concat (map (digits_dot L) (digits_dot L s)))))) \<noteq> []"

fun ip_search :: "pylib \<Rightarrow> str \<Rightarrow> bool" where
  "ip_search L [] = ip_match_here L []"
| "ip_search L (c # cs) = (ip_match_here L (c # cs) \<or> ip_search L cs)"

subsection \<open>The host name of \<open>urllib.parse.urlparse\<close>\<close>

text \<open>
  \<open>urlparse\<close> is the standard library's (CPython 3.11). Of its result the program reads
  \<open>hostname\<close> only, which depends on \<open>netloc\<close> only, so the model follows \<open>urlsplit\<close> up to
  the network location, with every check of it that raises, and then the \<open>hostname\<close>
  property.
\<close>

definition c0_control_or_space :: "int \<Rightarrow> bool" where
  "c0_control_or_space c \<longleftrightarrow> c \<le> 32"

definition unsafe_url_byte :: "int \<Rightarrow> bool" where
  "unsafe_url_byte c \<longleftrightarrow> c = 9 \<or> c = 13 \<or> c = 10"

definition scheme_char :: "int \<Rightarrow> bool" where
  "scheme_char c \<longleftrightarrow> is_lower c \<or> is_upper c \<or> is_digit c
     \<or> c = ch CHR ''+'' \<or> c = ch CHR ''-'' \<or> c = ch CHR ''.''"

text \<open>
  \<open>i = url.find(':')\<close> and the test that follows it: the rest of the URL once a scheme has
  been split off, the URL itself when there is none.
\<close>

definition split_scheme :: "str \<Rightarrow> str" where
  "split_scheme url =
     (if ch CHR '':'' \<in> set url \<and> takeWhile (\<lambda>c. c \<noteq> ch CHR '':'') url \<noteq> []
         \<and> (is_lower (hd url) \<or> is_upper (hd url))
         \<and> list_all scheme_char (takeWhile (\<lambda>c. c \<noteq> ch CHR '':'') url)
      then tl (dropWhile (\<lambda>c. c \<noteq> ch CHR '':'') url)
      else url)"

text \<open>\<open>_splitnetloc(url, 2)[0]\<close>: from index 2 up to the first of \<open>/\<close>, \<open>?\<close>, \<open>#\<close>.\<close>

definition splitnetloc :: "str \<Rightarrow> str" where
  "splitnetloc url =
     takeWhile (\<lambda>c. c \<noteq> ch CHR ''/'' \<and> c \<noteq> ch CHR ''?'' \<and> c \<noteq> ch CHR ''#'') (drop 2 url)"

text \<open>
  \<open>_checknetloc\<close>: \<open>True\<close> when it returns, \<open>False\<close> when it raises. It returns at once on an
  empty or ASCII network location; otherwise it takes out \<open>@\<close>, \<open>:\<close>, \<open>#\<close> and \<open>?\<close>,
  normalises, and raises when that changed the text and brought in one of \<open>/?#@:\<close>.
\<close>

definition checknetloc :: "pylib \<Rightarrow> str \<Rightarrow> bool" where
  "checknetloc L netloc =
     (if netloc = [] \<or> list_all (\<lambda>c. c < 128) netloc then True
      else (let n = filter (\<lambda>c. c \<noteq> ch CHR ''@'' \<and> c \<noteq> ch CHR '':'' \<and> c \<noteq> ch CHR ''#''
                                 \<and> c \<noteq> ch CHR ''?'') netloc;
                netloc2 = nfkc L n
            in if n = netloc2 then True
               else \<not> list_ex (\<lambda>c. c \<in> set netloc2) (str_of ''/?#@:'')))"

text \<open>\<open>s.partition(c)[2]\<close> and \<open>s.partition(c)[0]\<close> for a one-character separator.\<close>

definition partition_after :: "int \<Rightarrow> str \<Rightarrow> str" where
  "partition_after c s = drop 1 (dropWhile (\<lambda>x. x \<noteq> c) s)"

definition partition_before :: "int \<Rightarrow> str \<Rightarrow> str" where
  "partition_before c s = takeWhile (\<lambda>x. x \<noteq> c) s"

text \<open>\<open>s.rpartition(c)[2]\<close>: what follows the last \<open>c\<close>, all of \<open>s\<close> when there is none.\<close>

definition rpartition_after :: "int \<Rightarrow> str \<Rightarrow> str" where
  "rpartition_after c s = rev (takeWhile (\<lambda>x. x \<noteq> c) (rev s))"

text \<open>
  \<open>urlsplit(url).netloc\<close>: the left strip of control characters and spaces, the removal of
  tab, carriage return and line feed, the scheme, then the network location after \<open>//\<close>
  with the checks that raise \<open>ValueError\<close>: one bracket without the other, the check of a
  bracketed host, and \<open>_checknetloc\<close>.
\<close>

definition urlsplit_netloc :: "pylib \<Rightarrow> str \<Rightarrow> py_error + str" where
  "urlsplit_netloc L url0 =
     (let url1 = dropWhile c0_control_or_space url0;
          url2 = filter (\<lambda>c. \<not> unsafe_url_byte c) url1;
          url = split_scheme url2
      in if take 2 url = str_of ''//'' then
           (let netloc = splitnetloc url
            in if (ch CHR ''['' \<in> set netloc \<and> ch CHR '']'' \<notin> set netloc)
                  \<or> (ch CHR '']'' \<in> set netloc \<and> ch CHR ''['' \<notin> set netloc)
               then Inl ValueError
               else if ch CHR ''['' \<in> set netloc \<and> ch CHR '']'' \<in> set netloc
                       \<and> \<not> bracketed_netloc_ok L netloc
               then Inl ValueError
               else if \<not> checknetloc L netloc then Inl ValueError
               else Inr netloc)
         else Inr [])"

text \<open>\<open>_hostinfo[0]\<close>\<close>

definition hostinfo_hostname :: "str \<Rightarrow> str" where
  "hostinfo_hostname netloc =
     (let hostinfo = rpartition_after (ch CHR ''@'') netloc
      in if ch CHR ''['' \<in> set hostinfo
         then partition_before (ch CHR '']'') (partition_after (ch CHR ''['') hostinfo)
         else partition_before (ch CHR '':'') hostinfo)"

text \<open>The \<open>hostname\<close> property: \<open>None\<close> for an empty host, the zone after \<open>%\<close> kept as it is.\<close>

definition hostname_of_netloc :: "pylib \<Rightarrow> str \<Rightarrow> str option" where
  "hostname_of_netloc L netloc =
     (let h = hostinfo_hostname netloc
      in if h = [] then None
         else Some (lower L (takeWhile (\<lambda>c. c \<noteq> ch CHR ''%'') h)
                    @ dropWhile (\<lambda>c. c \<noteq> ch CHR ''%'') h))"

text \<open>\<open>urlparse(url).hostname\<close>\<close>

definition urlparse_hostname :: "pylib \<Rightarrow> str \<Rightarrow> py_error + str option" where
  "urlparse_hostname L url =
     (case urlsplit_netloc L url of
        Inl e \<Rightarrow> Inl e
      | Inr netloc \<Rightarrow> Inr (hostname_of_netloc L netloc))"

text \<open>\<open>parsed.hostname or ""\<close>\<close>

definition hostname_or_empty :: "str option \<Rightarrow> str" where
  "hostname_or_empty parsed_hostname = (case parsed_hostname of None \<Rightarrow> [] | Some h \<Rightarrow> or_empty h)"

subsection \<open>The classifier\<close>

text \<open>The two symbols in front of the verdicts: U+26A0 with U+FE0F, and U+2705.\<close>

definition warning_sign :: str where
  "warning_sign = [0x26A0, 0xFE0F]"

definition check_mark :: str where
  "check_mark = [0x2705]"

definition url_ip :: str where
  "url_ip = warning_sign @ str_of '' Phishing Website! (Contains IP address)''"

definition url_no_https :: str where
  "url_no_https = warning_sign @ str_of '' Phishing Website! (No HTTPS)''"

definition url_symbols :: str where
  "url_symbols = warning_sign @ str_of '' Phishing Website! (Suspicious symbols in URL)''"

definition url_too_long :: str where
  "url_too_long = warning_sign @ str_of '' Phishing Website! (URL too long)''"

definition url_subdomain :: str where
  "url_subdomain = warning_sign @ str_of '' Phishing Website! (Suspicious subdomain pattern)''"

definition url_legitimate :: str where
  "url_legitimate = check_mark @ str_of '' Legitimate Website!''"

definition is_phishing_url :: "pylib \<Rightarrow> str \<Rightarrow> py_error + str" where
  "is_phishing_url L url0 =
     (let url = strip L url0
      in if ip_search L url then Inr url_ip
         else if \<not> startswith (lower L url) (str_of ''https://'') then Inr url_no_https
         else if ch CHR ''@'' \<in> set url \<or> py_in (str_of ''//'') (drop 8 url) then Inr url_symbols
         else if length url > 75 then Inr url_too_long
         else case urlparse_hostname L url of
                Inl e \<Rightarrow> Inl e
              | Inr parsed_hostname \<Rightarrow>
                  (let hostname = hostname_or_empty parsed_hostname
                   in if count_char (ch CHR ''.'') hostname \<ge> 3
                         \<and> list_ex (\<lambda>keyword. py_in keyword hostname)
                              [str_of ''login'', str_of ''secure'', str_of ''account'']
                      then Inr url_subdomain
                      else Inr url_legitimate))"

section \<open>Rule-based email detection\<close>

definition SUSPICIOUS_KEYWORDS :: "str list" where
  "SUSPICIOUS_KEYWORDS = map str_of
     [''urgent'', ''verify'', ''verify your'', ''account'', ''password'', ''reset'', ''confirm'',
      ''click here'', ''login'', ''limited time'', ''immediately'', ''suspend'', ''security alert'',
      ''wire transfer'', ''bank'', ''ssn'']"

subsection \<open>Links\<close>

text \<open>
  The pattern \<open>https?://\<close> at the front of the text, by backtracking: \<open>http\<close>, then the
  optional \<open>s\<close> taken first and left out second, then \<open>://\<close>. The result is what follows
  the match.
\<close>

definition link_prefix :: "str \<Rightarrow> str option" where
  "link_prefix t =
     (if startswith t (str_of ''http'') then
        (if startswith (drop 4 t) (str_of ''s'') \<and> startswith (drop 5 t) (str_of ''://'')
         then Some (drop 8 t)
         else if startswith (drop 4 t) (str_of ''://'') then Some (drop 7 t)
         else None)
      else None)"

text \<open>\<open>bool(re.search(r'https?://', text))\<close>\<close>

fun contains_link :: "str \<Rightarrow> bool" where
  "contains_link [] = (link_prefix [] \<noteq> None)"
| "contains_link (c # cs) = (link_prefix (c # cs) \<noteq> None \<or> contains_link cs)"

text \<open>The class \<open>[A-Za-z0-9\.-]\<close>: the ranges are those of the ASCII letters and digits.\<close>

definition host_char :: "int \<Rightarrow> bool" where
  "host_char c \<longleftrightarrow> is_upper c \<or> is_lower c \<or> is_digit c \<or> c = ch CHR ''.'' \<or> c = ch CHR ''-''"

text \<open>
  \<open>re.findall(r'https?://([A-Za-z0-9\.-]+)', text)\<close>: the text is scanned from the left;
  where the pattern matches, the group is the longest run of host characters, which must
  not be empty, and the scan goes on behind the match; elsewhere it moves on by one
  character.
\<close>

function findall_link_domains :: "str \<Rightarrow> str list" where
  "findall_link_domains [] = []"
| "findall_link_domains (c # cs) =
     (case link_prefix (c # cs) of
        None \<Rightarrow> findall_link_domains cs
      | Some r \<Rightarrow>
          (if takeWhile host_char r = [] then findall_link_domains cs
           else takeWhile host_char r # findall_link_domains (dropWhile host_char r)))"
  by pat_completeness auto
termination
proof (relation "measure length")
  fix c :: int and cs r :: str
  assume "link_prefix (c # cs) = Some r"
  then have "length r < length (c # cs)"
    by (auto simp: link_prefix_def split: if_splits)
  moreover have "length (dropWhile host_char r) \<le> length r"
    by (rule length_dropWhile_le)
  ultimately show "(dropWhile host_char r, c # cs) \<in> measure length"
    by simp
qed simp_all

subsection \<open>The domain of an address\<close>

text \<open>\<open>s.split(c)\<close> for a one-character separator: the pieces between the separators.\<close>

fun split_on :: "int \<Rightarrow> str \<Rightarrow> str list" where
  "split_on c [] = [[]]"
| "split_on c (x # xs) =
     (if x = c then [] # split_on c xs
      else (case split_on c xs of [] \<Rightarrow> [[x]] | p # ps \<Rightarrow> (x # p) # ps))"

definition extract_domain :: "pylib \<Rightarrow> str \<Rightarrow> str" where
  "extract_domain L email_address =
     (if email_address = [] then []
      else (let parts = split_on (ch CHR ''@'') email_address
            in if length parts > 1 then lower L (last parts) else []))"

subsection \<open>The classifier\<close>

definition email_keyword :: "str \<Rightarrow> str" where
  "email_keyword kw =
     warning_sign @ str_of '' Phishing Email! (Found suspicious keyword: '' @ [39] @ kw @ [39]
       @ str_of '')''"

definition email_external_link :: str where
  "email_external_link =
     warning_sign @ str_of '' Phishing Email! (Contains external link not matching sender domain)''"

definition email_contains_link :: str where
  "email_contains_link = warning_sign @ str_of '' Phishing Email! (Contains link)''"

definition email_reply_to :: str where
  "email_reply_to = warning_sign @ str_of '' Phishing Email! (Sender/Reply-To domain mismatch)''"

definition email_urgency :: str where
  "email_urgency = warning_sign @ str_of '' Phishing Email! (Excessive urgency/exclamation marks)''"

definition email_sensitive :: str where
  "email_sensitive = warning_sign @ str_of '' Phishing Email! (Asks for sensitive information)''"

definition email_legitimate :: str where
  "email_legitimate = check_mark @ str_of '' Likely Legitimate Email''"

text \<open>Rule 1, the loop over the keywords: the keyword at which it returns, if it does.\<close>

fun keyword_loop :: "str list \<Rightarrow> str \<Rightarrow> str \<Rightarrow> str option" where
  "keyword_loop [] subj body_text = None"
| "keyword_loop (kw # kws) subj body_text =
     (if py_in kw subj \<or> py_in kw body_text then Some kw
      else keyword_loop kws subj body_text)"

text \<open>Rule 2, the loop over the link domains: \<open>True\<close> when it returns the verdict.\<close>

fun link_loop :: "pylib \<Rightarrow> str \<Rightarrow> str list \<Rightarrow> bool" where
  "link_loop L sender_domain [] = False"
| "link_loop L sender_domain (ld # lds) =
     (let ld_clean = lower L ld
      in if \<not> py_in sender_domain ld_clean \<and> \<not> py_in ld_clean sender_domain then True
         else link_loop L sender_domain lds)"

text \<open>Rules 3 to 5 and the final return.\<close>

definition rules_3_to_5 :: "pylib \<Rightarrow> str \<Rightarrow> str \<Rightarrow> str \<Rightarrow> str \<Rightarrow> str" where
  "rules_3_to_5 L s r subj body_text =
     (if r \<noteq> [] \<and> extract_domain L s \<noteq> [] \<and> extract_domain L r \<noteq> []
         \<and> extract_domain L s \<noteq> extract_domain L r
      then email_reply_to
      else if count_char (ch CHR ''!'') body_text \<ge> 3 \<or> count_char (ch CHR ''!'') subj \<ge> 2
      then email_urgency
      else if list_ex (\<lambda>word. py_in word body_text)
                (map str_of [''enter your password'', ''provide your password'',
                   ''send your password'', ''ssn'', ''social security''])
      then email_sensitive
      else email_legitimate)"

text \<open>
  The body of \<open>is_email_phishing\<close>, run with \<open>kws\<close> as the value that the global name
  \<open>SUSPICIOUS_KEYWORDS\<close> has at the time of the call.
\<close>

definition is_email_phishing_with :: "pylib \<Rightarrow> str list \<Rightarrow> str \<Rightarrow> str \<Rightarrow> str \<Rightarrow> str \<Rightarrow> str" where
  "is_email_phishing_with L kws sender reply_to subject body =
     (let s = strip L (or_empty sender);
          r = strip L (or_empty reply_to);
          subj = lower L (or_empty subject);
          body_text = lower L (or_empty body)
      in case keyword_loop kws subj body_text of
           Some kw \<Rightarrow> email_keyword kw
         | None \<Rightarrow>
             (if contains_link body_text then
                (let link_domains = findall_link_domains body_text;
                     sender_domain = extract_domain L s
                 in if link_domains \<noteq> [] \<and> sender_domain \<noteq> [] then
                      (if link_loop L sender_domain link_domains then email_external_link
                       else rules_3_to_5 L s r subj body_text)
                    else email_contains_link)
              else rules_3_to_5 L s r subj body_text))"

text \<open>\<open>is_email_phishing\<close> in the module as it is loaded.\<close>

definition is_email_phishing :: "pylib \<Rightarrow> str \<Rightarrow> str \<Rightarrow> str \<Rightarrow> str \<Rightarrow> str" where
  "is_email_phishing L sender reply_to subject body =
     is_email_phishing_with L SUSPICIOUS_KEYWORDS sender reply_to subject body"

section \<open>The database\<close>

text \<open>
  The two tables, a row as a record: the fields of \<open>URLCheck\<close> are \<open>id\<close>, \<open>url\<close>, \<open>result\<close>
  and \<open>timestamp\<close>, those of \<open>EmailCheck\<close> are \<open>id\<close>, \<open>sender\<close>, \<open>reply_to\<close>, \<open>subject\<close>,
  \<open>body\<close>, \<open>result\<close> and \<open>timestamp\<close>; the prefix tells the two tables apart. A \<open>DateTime\<close>
  is a number of microseconds. A table is the list of its rows in the order of insertion.
\<close>

record URLCheck =
  uc_id :: nat
  uc_url :: str
  uc_result :: str
  uc_timestamp :: int


text \<open>
  The integer primary key that SQLite gives a new row: one more than the largest in use,
  1 in an empty table.
\<close>

definition next_id :: "nat list \<Rightarrow> nat" where
  "next_id ids = foldr max ids 0 + 1"

text \<open>
  \<open>db.session.add(URLCheck(url=url, result=result))\<close> and \<open>db.session.commit()\<close>; \<open>now\<close> is
  what \<open>datetime.utcnow\<close>, the default of the column, returns at that moment.
\<close>

definition append_url_check :: "URLCheck list \<Rightarrow> int \<Rightarrow> str \<Rightarrow> str \<Rightarrow> URLCheck list" where
  "append_url_check table now u res =
     table @ [\<lparr>uc_id = next_id (map uc_id table), uc_url = u, uc_result = res, uc_timestamp = now\<rparr>]"


text \<open>
  The route \<open>/check_url\<close>, on the value of the form field: the table afterwards, or the
  exception that leaves the handler.
\<close>

definition check_url :: "pylib \<Rightarrow> int \<Rightarrow> str \<Rightarrow> URLCheck list \<Rightarrow> py_error + URLCheck list" where
  "check_url L now form_url table =
     (let u = strip L form_url
      in if u = [] then Inr table
         else case is_phishing_url L u of
                Inl e \<Rightarrow> Inl e
              | Inr res \<Rightarrow> Inr (append_url_check table now u res))"

text \<open>
  \<open>URLCheck.query.order_by(URLCheck.timestamp.desc())\<close>: the rows of the table, each once,
  with no timestamp before a later one. The query names no second key, so among rows of
  equal timestamp every order is a result; the model is the relation between the table and
  the results that the query allows.
\<close>

definition order_by_timestamp_desc :: "URLCheck list \<Rightarrow> URLCheck list \<Rightarrow> bool" where
  "order_by_timestamp_desc table rows \<longleftrightarrow>
     mset rows = mset table \<and> sorted_wrt (\<lambda>a b. uc_timestamp b \<le> uc_timestamp a) rows"

text \<open>\<open>.limit(n).all()\<close>; \<open>home\<close> asks for 5.\<close>

definition limit :: "nat \<Rightarrow> 'a list \<Rightarrow> 'a list" where
  "limit n rows = take n rows"

definition home_limit :: nat where
  "home_limit = 5"

text \<open>Several insertions one after the other, each with its clock reading, URL and verdict.\<close>

fun append_url_checks :: "URLCheck list \<Rightarrow> (int \<times> str \<times> str) list \<Rightarrow> URLCheck list" where
  "append_url_checks table [] = table"
| "append_url_checks table ((now, u, res) # entries) =
     append_url_checks (append_url_check table now u res) entries"

text \<open>
  The order as the specification words it: timestamp descending, rows of equal timestamp
  by id descending.
\<close>

definition spec_timestamp_then_id_desc :: "URLCheck list \<Rightarrow> bool" where
  "spec_timestamp_then_id_desc rows \<longleftrightarrow>
     sorted_wrt (\<lambda>a b. uc_timestamp b < uc_timestamp a
                       \<or> (uc_timestamp b = uc_timestamp a \<and> uc_id b < uc_id a)) rows"

section \<open>The state of the program\<close>







section \<open>The verdicts\<close>

definition url_verdicts :: "str list" where
  "url_verdicts = [url_legitimate, url_ip, url_no_https, url_symbols, url_too_long, url_subdomain]"

definition email_verdicts :: "str list" where
  "email_verdicts =
     [email_legitimate, email_external_link, email_contains_link, email_reply_to, email_urgency,
      email_sensitive] @ map email_keyword SUSPICIOUS_KEYWORDS"

section \<open>A library for the examples\<close>

text \<open>
  An instance of the parameters, for examples with characters outside ASCII: it lowers the
  Kelvin sign U+212A to \<open>k\<close> and the capitals U+00C0 to U+00DE of Latin-1 to their small
  letters, knows U+0085, U+00A0 and U+3000 as whitespace and the Arabic-Indic digits
  U+0660 to U+0669 as decimal digits, normalises nothing and accepts no bracketed host.
\<close>

definition example_lib :: pylib where
  "example_lib =
     \<lparr>lower_nonascii =
        (\<lambda>s i. if s ! i = 0x212A then [107]
                else if 0xC0 \<le> s ! i \<and> s ! i \<le> 0xDE \<and> s ! i \<noteq> 0xD7 then [s ! i + 32]
                else [s ! i]),
      isspace_nonascii = (\<lambda>c. c = 0x85 \<or> c = 0xA0 \<or> c = 0x3000),
      isdecimal_nonascii = (\<lambda>c. 0x660 \<le> c \<and> c \<le> 0x669),
      nfkc = (\<lambda>s. s),
      bracketed_netloc_ok = (\<lambda>netloc. False)\<rparr>"

section \<open>Basic facts\<close>

lemmas url_verdict_defs =
  url_ip_def url_no_https_def url_symbols_def url_too_long_def url_subdomain_def
  url_legitimate_def warning_sign_def check_mark_def str_of_def

lemmas email_verdict_defs =
  email_keyword_def email_external_link_def email_contains_link_def email_reply_to_def
  email_urgency_def email_sensitive_def email_legitimate_def warning_sign_def check_mark_def
  str_of_def

lemma strip_Nil [simp]: "strip L [] = []"
  by (simp add: strip_def)

lemma lower_Nil [simp]: "lower L [] = []"
  by (simp add: lower_def)

lemma or_empty_id [simp]: "or_empty s = s"
  by (simp add: or_empty_def)

lemma ip_match_here_Nil [simp]: "\<not> ip_match_here L []"
  by (simp add: ip_match_here_def digits_dot_def digits_1_3_def)

section \<open>The URL classifier\<close>

text \<open>
  Where the first four rules pass and \<open>urlparse\<close> finds no host name, the host name is the
  empty string and the verdict is the legitimate one.
\<close>

lemma no_hostname_is_legitimate:
  assumes "\<not> ip_search L (strip L u)" and "startswith (lower L (strip L u)) (str_of ''https://'')"
    and "ch CHR ''@'' \<notin> set (strip L u)" and "\<not> py_in (str_of ''//'') (drop 8 (strip L u))"
    and "length (strip L u) \<le> 75"
    and "urlparse_hostname L (strip L u) = Inr None"
  shows "is_phishing_url L u = Inr url_legitimate"
  using assms by (simp add: is_phishing_url_def hostname_or_empty_def count_char_def)

lemma no_hostname_example: "is_phishing_url L (str_of ''https:///path'') = Inr url_legitimate"
  by code_simp

text \<open>
  C1. The claim is that \<open>is_phishing_url\<close> never raises on a URL whose host name cannot be
  parsed, and returns the legitimate verdict there. On \<open>https://[abc\<close> the first four rules
  pass, the network location has an opening bracket and no closing one, \<open>urlparse\<close> raises
  \<open>ValueError\<close>, and nothing in \<open>is_phishing_url\<close> catches it: the call ends in the
  exception, whatever the Unicode tables and \<open>ipaddress\<close> say.
\<close>

theorem unbalanced_bracket_raises:
  "is_phishing_url L (str_of ''https://[abc'') = Inl ValueError"
  by code_simp

text \<open>
  C2. The rules of \<open>is_phishing_url\<close> are tried in order and the first that matches gives
  the verdict: the dotted-quad rule whatever the later rules would say, the scheme rule
  when the dotted-quad rule does not match, the symbols rule when the two before it do
  not, the length rule when the three before it do not, the subdomain rule, on the host
  name that \<open>urlparse\<close> returns, when the four before it do not, and the legitimate verdict
  when none of the five does. On \<open>https://1.2.3.4/login\<close> the verdict is the one of the
  dotted-quad rule, on \<open>https://secure.login.account.example.com\<close> the one of the
  subdomain rule, and \<open>https://example.com\<close> is legitimate. Three dots with a keyword are
  enough for the subdomain rule; two dots with a keyword, or four without one, are not.
\<close>

theorem url_first_matching_rule_wins:
  "(ip_search L (strip L u) \<longrightarrow> is_phishing_url L u = Inr url_ip)
   \<and> (\<not> ip_search L (strip L u) \<and> \<not> startswith (lower L (strip L u)) (str_of ''https://'')
        \<longrightarrow> is_phishing_url L u = Inr url_no_https)
   \<and> (\<not> ip_search L (strip L u) \<and> startswith (lower L (strip L u)) (str_of ''https://'')
        \<and> (ch CHR ''@'' \<in> set (strip L u) \<or> py_in (str_of ''//'') (drop 8 (strip L u)))
        \<longrightarrow> is_phishing_url L u = Inr url_symbols)
   \<and> (\<not> ip_search L (strip L u) \<and> startswith (lower L (strip L u)) (str_of ''https://'')
        \<and> \<not> (ch CHR ''@'' \<in> set (strip L u) \<or> py_in (str_of ''//'') (drop 8 (strip L u)))
        \<and> length (strip L u) > 75
        \<longrightarrow> is_phishing_url L u = Inr url_too_long)
   \<and> (\<not> ip_search L (strip L u) \<and> startswith (lower L (strip L u)) (str_of ''https://'')
        \<and> \<not> (ch CHR ''@'' \<in> set (strip L u) \<or> py_in (str_of ''//'') (drop 8 (strip L u)))
        \<and> length (strip L u) \<le> 75
        \<and> urlparse_hostname L (strip L u) = Inr h
        \<and> count_char (ch CHR ''.'') (hostname_or_empty h) \<ge> 3
        \<and> list_ex (\<lambda>keyword. py_in keyword (hostname_or_empty h))
             [str_of ''login'', str_of ''secure'', str_of ''account'']
        \<longrightarrow> is_phishing_url L u = Inr url_subdomain)
   \<and> (\<not> ip_search L (strip L u) \<and> startswith (lower L (strip L u)) (str_of ''https://'')
        \<and> \<not> (ch CHR ''@'' \<in> set (strip L u) \<or> py_in (str_of ''//'') (drop 8 (strip L u)))
        \<and> length (strip L u) \<le> 75
        \<and> urlparse_hostname L (strip L u) = Inr h
        \<and> \<not> (count_char (ch CHR ''.'') (hostname_or_empty h) \<ge> 3
              \<and> list_ex (\<lambda>keyword. py_in keyword (hostname_or_empty h))
                   [str_of ''login'', str_of ''secure'', str_of ''account''])
        \<longrightarrow> is_phishing_url L u = Inr url_legitimate)
   \<and> is_phishing_url L (str_of ''https://1.2.3.4/login'') = Inr url_ip
   \<and> is_phishing_url L (str_of ''https://secure.login.account.example.com'') = Inr url_subdomain
   \<and> is_phishing_url L (str_of ''https://example.com'') = Inr url_legitimate
   \<and> is_phishing_url L (str_of ''https://my.login.example.com'') = Inr url_subdomain
   \<and> is_phishing_url L (str_of ''https://login.example.com'') = Inr url_legitimate
   \<and> is_phishing_url L (str_of ''https://a.b.c.example.com'') = Inr url_legitimate"
proof (intro conjI impI)
  show "is_phishing_url L (str_of ''https://1.2.3.4/login'') = Inr url_ip"
    by code_simp
  show "is_phishing_url L (str_of ''https://secure.login.account.example.com'') = Inr url_subdomain"
    by code_simp
  show "is_phishing_url L (str_of ''https://example.com'') = Inr url_legitimate"
    by code_simp
  show "is_phishing_url L (str_of ''https://my.login.example.com'') = Inr url_subdomain"
    by code_simp
  show "is_phishing_url L (str_of ''https://login.example.com'') = Inr url_legitimate"
    by code_simp
  show "is_phishing_url L (str_of ''https://a.b.c.example.com'') = Inr url_legitimate"
    by code_simp
qed (auto simp: is_phishing_url_def Let_def)

theorem url_first_matching_rule_wins_witness:
  "ip_search example_lib (strip example_lib [0x661, 46, 0x662, 46, 0x663, 46, 0x664])
   \<and> is_phishing_url example_lib [0x661, 46, 0x662, 46, 0x663, 46, 0x664] = Inr url_ip
   \<and> ip_search example_lib (strip example_lib (str_of ''http://user@10.0.0.1//x''))
   \<and> is_phishing_url example_lib (str_of ''http://user@10.0.0.1//x'') = Inr url_ip
   \<and> \<not> startswith (lower example_lib (strip example_lib (str_of ''example.com''))) (str_of ''https://'')
   \<and> is_phishing_url example_lib (str_of ''example.com'') = Inr url_no_https
   \<and> py_in (str_of ''//'') (drop 8 (strip example_lib (str_of ''https://a//b'')))
   \<and> is_phishing_url example_lib (str_of ''https://a//b'') = Inr url_symbols
   \<and> length (strip example_lib (str_of ''https://'' @ replicate 80 (ch CHR ''a''))) > 75
   \<and> is_phishing_url example_lib (str_of ''https://'' @ replicate 80 (ch CHR ''a'')) = Inr url_too_long
   \<and> urlparse_hostname example_lib (strip example_lib (str_of '' HTTPS://Secure.Login.example.com:8443/x ''))
       = Inr (Some (str_of ''secure.login.example.com''))
   \<and> is_phishing_url example_lib (str_of '' HTTPS://Secure.Login.example.com:8443/x '') = Inr url_subdomain
   \<and> urlparse_hostname example_lib (strip example_lib (0xA0 # str_of ''https://login.example.com''))
       = Inr (Some (str_of ''login.example.com''))
   \<and> is_phishing_url example_lib (0xA0 # str_of ''https://login.example.com'') = Inr url_legitimate"
proof -
  let ?L = example_lib
  let ?ar = "[0x661, 46, 0x662, 46, 0x663, 46, 0x664] :: str"
  let ?ip = "str_of ''http://user@10.0.0.1//x''"
  let ?no = "str_of ''example.com''"
  let ?sy = "str_of ''https://a//b''"
  let ?long = "str_of ''https://'' @ replicate 80 (ch CHR ''a'')"
  let ?sub = "str_of '' HTTPS://Secure.Login.example.com:8443/x ''"
  let ?leg = "0xA0 # str_of ''https://login.example.com''"
  have a: "ip_search ?L (strip ?L ?ar)" "ip_search ?L (strip ?L ?ip)"
    by code_simp+
  have b: "\<not> ip_search ?L (strip ?L ?no)"
    "\<not> startswith (lower ?L (strip ?L ?no)) (str_of ''https://'')"
    by code_simp+
  have c: "\<not> ip_search ?L (strip ?L ?sy)"
    "startswith (lower ?L (strip ?L ?sy)) (str_of ''https://'')"
    "py_in (str_of ''//'') (drop 8 (strip ?L ?sy))"
    by code_simp+
  have d: "\<not> ip_search ?L (strip ?L ?long)"
    "startswith (lower ?L (strip ?L ?long)) (str_of ''https://'')"
    "\<not> (ch CHR ''@'' \<in> set (strip ?L ?long) \<or> py_in (str_of ''//'') (drop 8 (strip ?L ?long)))"
    "length (strip ?L ?long) > 75"
    by code_simp+
  have e: "\<not> ip_search ?L (strip ?L ?sub)"
    "startswith (lower ?L (strip ?L ?sub)) (str_of ''https://'')"
    "\<not> (ch CHR ''@'' \<in> set (strip ?L ?sub) \<or> py_in (str_of ''//'') (drop 8 (strip ?L ?sub)))"
    "length (strip ?L ?sub) \<le> 75"
    "urlparse_hostname ?L (strip ?L ?sub) = Inr (Some (str_of ''secure.login.example.com''))"
    "count_char (ch CHR ''.'') (hostname_or_empty (Some (str_of ''secure.login.example.com''))) \<ge> 3"
    "list_ex (\<lambda>keyword. py_in keyword (hostname_or_empty (Some (str_of ''secure.login.example.com''))))
       [str_of ''login'', str_of ''secure'', str_of ''account'']"
    by code_simp+
  have f: "\<not> ip_search ?L (strip ?L ?leg)"
    "startswith (lower ?L (strip ?L ?leg)) (str_of ''https://'')"
    "\<not> (ch CHR ''@'' \<in> set (strip ?L ?leg) \<or> py_in (str_of ''//'') (drop 8 (strip ?L ?leg)))"
    "length (strip ?L ?leg) \<le> 75"
    "urlparse_hostname ?L (strip ?L ?leg) = Inr (Some (str_of ''login.example.com''))"
    "\<not> (count_char (ch CHR ''.'') (hostname_or_empty (Some (str_of ''login.example.com''))) \<ge> 3
        \<and> list_ex (\<lambda>keyword. py_in keyword (hostname_or_empty (Some (str_of ''login.example.com''))))
             [str_of ''login'', str_of ''secure'', str_of ''account''])"
    by code_simp+
  have "is_phishing_url ?L ?ar = Inr url_ip"
    using url_first_matching_rule_wins [where L = ?L and u = ?ar] a by blast
  moreover have "is_phishing_url ?L ?ip = Inr url_ip"
    using url_first_matching_rule_wins [where L = ?L and u = ?ip] a by blast
  moreover have "is_phishing_url ?L ?no = Inr url_no_https"
    using url_first_matching_rule_wins [where L = ?L and u = ?no] b by blast
  moreover have "is_phishing_url ?L ?sy = Inr url_symbols"
    using url_first_matching_rule_wins [where L = ?L and u = ?sy] c by blast
  moreover have "is_phishing_url ?L ?long = Inr url_too_long"
    using url_first_matching_rule_wins [where L = ?L and u = ?long] d by blast
  moreover have "is_phishing_url ?L ?sub = Inr url_subdomain"
    using url_first_matching_rule_wins
      [where L = ?L and u = ?sub and h = "Some (str_of ''secure.login.example.com'')"] e
    by blast
  moreover have "is_phishing_url ?L ?leg = Inr url_legitimate"
    using url_first_matching_rule_wins
      [where L = ?L and u = ?leg and h = "Some (str_of ''login.example.com'')"] f
    by blast
  ultimately show ?thesis
    using a b c d e f by blast
qed

text \<open>
  C3. On an input that is empty once its surrounding whitespace is stripped, the whitespace
  of Unicode included, \<open>is_phishing_url\<close> returns, and the verdict is the one of the
  missing scheme.
\<close>

theorem blank_url_is_no_https:
  "strip L u = [] \<Longrightarrow> is_phishing_url L u = Inr url_no_https"
  by (simp add: is_phishing_url_def startswith_def str_of_def)

theorem blank_url_is_no_https_witness:
  "strip example_lib [0xA0, 32, 0x3000, 9, 0x85] = []
   \<and> is_phishing_url example_lib [0xA0, 32, 0x3000, 9, 0x85] = Inr url_no_https"
proof -
  have h: "strip example_lib [0xA0, 32, 0x3000, 9, 0x85] = []"
    by code_simp
  from blank_url_is_no_https [OF h] h show ?thesis
    by blast
qed

section \<open>The email classifier\<close>

subsection \<open>The keyword rule\<close>

lemma py_in_sublist: "py_in sub s \<longleftrightarrow> sublist sub s"
  by (induction s) (simp_all add: sublist_Cons_right)

lemma py_in_trans: "py_in a b \<Longrightarrow> py_in b c \<Longrightarrow> py_in a c"
  unfolding py_in_sublist by (rule sublist_order.order_trans)

lemma keyword_loop_None:
  "keyword_loop kws subj body_text = None \<longleftrightarrow>
     \<not> list_ex (\<lambda>kw. py_in kw subj \<or> py_in kw body_text) kws"
  by (induction kws) auto

lemma keyword_loop_first:
  "list_ex (\<lambda>kw. py_in kw subj \<or> py_in kw body_text) kws \<Longrightarrow>
     \<exists>i<length kws. keyword_loop kws subj body_text = Some (kws ! i)
        \<and> (py_in (kws ! i) subj \<or> py_in (kws ! i) body_text)
        \<and> (\<forall>j<i. \<not> (py_in (kws ! j) subj \<or> py_in (kws ! j) body_text))"
proof (induction kws)
  case Nil
  then show ?case by simp
next
  case (Cons kw kws)
  show ?case
  proof (cases "py_in kw subj \<or> py_in kw body_text")
    case True
    then have "keyword_loop (kw # kws) subj body_text = Some ((kw # kws) ! 0)"
      by auto
    with True show ?thesis
      by (intro exI [of _ 0]) simp
  next
    case False
    with Cons.prems have "list_ex (\<lambda>kw. py_in kw subj \<or> py_in kw body_text) kws"
      by simp
    from Cons.IH [OF this] obtain i where i: "i < length kws"
      "keyword_loop kws subj body_text = Some (kws ! i)"
      "py_in (kws ! i) subj \<or> py_in (kws ! i) body_text"
      "\<forall>j<i. \<not> (py_in (kws ! j) subj \<or> py_in (kws ! j) body_text)"
      by blast
    have "\<forall>j<Suc i. \<not> (py_in ((kw # kws) ! j) subj \<or> py_in ((kw # kws) ! j) body_text)"
      using False i(4) by (auto simp: less_Suc_eq_0_disj)
    with False i(1,2,3) show ?thesis
      by (intro exI [of _ "Suc i"]) simp
  qed
qed

text \<open>
  C4. When the lowercased subject or the lowercased body contains a keyword of
  \<open>SUSPICIOUS_KEYWORDS\<close>, \<open>is_email_phishing\<close> returns the keyword verdict, and the keyword it
  names is the first in the order of the list that occurs in either; for the sender
  \<open>a@bank.com\<close>, an empty reply-to and body and the subject \<open>Urgent\<close> it names \<open>urgent\<close>.
\<close>

theorem keyword_rule_reports_first_keyword:
  "(list_ex (\<lambda>kw. py_in kw (lower L subject) \<or> py_in kw (lower L body)) SUSPICIOUS_KEYWORDS \<longrightarrow>
      (\<exists>i<length SUSPICIOUS_KEYWORDS.
         (py_in (SUSPICIOUS_KEYWORDS ! i) (lower L subject)
            \<or> py_in (SUSPICIOUS_KEYWORDS ! i) (lower L body))
         \<and> (\<forall>j<i. \<not> (py_in (SUSPICIOUS_KEYWORDS ! j) (lower L subject)
                        \<or> py_in (SUSPICIOUS_KEYWORDS ! j) (lower L body)))
         \<and> is_email_phishing L sender reply_to subject body
             = email_keyword (SUSPICIOUS_KEYWORDS ! i)))
   \<and> is_email_phishing L (str_of ''a@bank.com'') [] (str_of ''Urgent'') []
       = email_keyword (str_of ''urgent'')"
proof
  show "list_ex (\<lambda>kw. py_in kw (lower L subject) \<or> py_in kw (lower L body)) SUSPICIOUS_KEYWORDS \<longrightarrow>
      (\<exists>i<length SUSPICIOUS_KEYWORDS.
         (py_in (SUSPICIOUS_KEYWORDS ! i) (lower L subject)
            \<or> py_in (SUSPICIOUS_KEYWORDS ! i) (lower L body))
         \<and> (\<forall>j<i. \<not> (py_in (SUSPICIOUS_KEYWORDS ! j) (lower L subject)
                        \<or> py_in (SUSPICIOUS_KEYWORDS ! j) (lower L body)))
         \<and> is_email_phishing L sender reply_to subject body
             = email_keyword (SUSPICIOUS_KEYWORDS ! i))"
  proof
    assume "list_ex (\<lambda>kw. py_in kw (lower L subject) \<or> py_in kw (lower L body)) SUSPICIOUS_KEYWORDS"
    from keyword_loop_first [OF this] obtain i where i: "i < length SUSPICIOUS_KEYWORDS"
      "keyword_loop SUSPICIOUS_KEYWORDS (lower L subject) (lower L body)
         = Some (SUSPICIOUS_KEYWORDS ! i)"
      "py_in (SUSPICIOUS_KEYWORDS ! i) (lower L subject)
         \<or> py_in (SUSPICIOUS_KEYWORDS ! i) (lower L body)"
      "\<forall>j<i. \<not> (py_in (SUSPICIOUS_KEYWORDS ! j) (lower L subject)
                        \<or> py_in (SUSPICIOUS_KEYWORDS ! j) (lower L body))"
      by blast
    from i(2) have "is_email_phishing L sender reply_to subject body
        = email_keyword (SUSPICIOUS_KEYWORDS ! i)"
      by (simp add: is_email_phishing_def is_email_phishing_with_def)
    with i(1,3,4) show "\<exists>i<length SUSPICIOUS_KEYWORDS.
         (py_in (SUSPICIOUS_KEYWORDS ! i) (lower L subject)
            \<or> py_in (SUSPICIOUS_KEYWORDS ! i) (lower L body))
         \<and> (\<forall>j<i. \<not> (py_in (SUSPICIOUS_KEYWORDS ! j) (lower L subject)
                        \<or> py_in (SUSPICIOUS_KEYWORDS ! j) (lower L body)))
         \<and> is_email_phishing L sender reply_to subject body
             = email_keyword (SUSPICIOUS_KEYWORDS ! i)"
      by blast
  qed
  show "is_email_phishing L (str_of ''a@bank.com'') [] (str_of ''Urgent'') []
      = email_keyword (str_of ''urgent'')"
    by code_simp
qed

theorem keyword_rule_reports_first_keyword_witness:
  "list_ex (\<lambda>kw. py_in kw (lower example_lib (str_of ''clic'' @ [0x212A] @ str_of '' here LOGIN''))
                  \<or> py_in kw (lower example_lib (str_of ''Reset the account'')))
      SUSPICIOUS_KEYWORDS
   \<and> (\<exists>i<length SUSPICIOUS_KEYWORDS.
         (py_in (SUSPICIOUS_KEYWORDS ! i)
             (lower example_lib (str_of ''clic'' @ [0x212A] @ str_of '' here LOGIN''))
            \<or> py_in (SUSPICIOUS_KEYWORDS ! i) (lower example_lib (str_of ''Reset the account'')))
         \<and> (\<forall>j<i. \<not> (py_in (SUSPICIOUS_KEYWORDS ! j)
                           (lower example_lib (str_of ''clic'' @ [0x212A] @ str_of '' here LOGIN''))
                        \<or> py_in (SUSPICIOUS_KEYWORDS ! j)
                             (lower example_lib (str_of ''Reset the account''))))
         \<and> is_email_phishing example_lib (str_of ''a@bank.com'') []
               (str_of ''clic'' @ [0x212A] @ str_of '' here LOGIN'') (str_of ''Reset the account'')
             = email_keyword (SUSPICIOUS_KEYWORDS ! i))
   \<and> is_email_phishing example_lib (str_of ''a@bank.com'') []
         (str_of ''clic'' @ [0x212A] @ str_of '' here LOGIN'') (str_of ''Reset the account'')
       = email_keyword (str_of ''account'')
   \<and> is_email_phishing example_lib (str_of ''a@bank.com'') []
         (str_of ''clic'' @ [0x212A] @ str_of '' here LOGIN'') []
       = email_keyword (str_of ''click here'')"
proof -
  let ?subj = "str_of ''clic'' @ [0x212A] @ str_of '' here LOGIN''"
  let ?body = "str_of ''Reset the account''"
  have h: "list_ex (\<lambda>kw. py_in kw (lower example_lib ?subj) \<or> py_in kw (lower example_lib ?body))
      SUSPICIOUS_KEYWORDS"
    by code_simp
  have e: "is_email_phishing example_lib (str_of ''a@bank.com'') [] ?subj ?body
       = email_keyword (str_of ''account'')"
    "is_email_phishing example_lib (str_of ''a@bank.com'') [] ?subj []
       = email_keyword (str_of ''click here'')"
    by code_simp+
  show ?thesis
    using keyword_rule_reports_first_keyword
      [where L = example_lib and subject = ?subj and body = ?body
         and sender = "str_of ''a@bank.com''" and reply_to = "[]"] h e
    by blast
qed

subsection \<open>The domain of an address\<close>

lemma split_on_not_Nil: "split_on c s \<noteq> []"
  by (induction s) (auto split: list.splits)

lemma split_on_no_separator: "c \<notin> set s \<Longrightarrow> split_on c s = [s]"
  by (induction s) auto

lemma split_on_last_separator:
  "c \<notin> set suf \<Longrightarrow>
     length (split_on c (pre @ c # suf)) > 1 \<and> last (split_on c (pre @ c # suf)) = suf"
proof (induction pre)
  case Nil
  then show ?case by (simp add: split_on_no_separator)
next
  case (Cons x pre)
  then show ?case
    by (cases "split_on c (pre @ c # suf)") (auto simp: split_on_not_Nil)
qed

text \<open>
  C6. \<open>extract_domain\<close> returns the empty string for an argument without \<open>@\<close>, the empty
  argument among them, and otherwise the text behind the last \<open>@\<close>, lowercased as
  \<open>str.lower\<close> does; \<open>user@Example.COM\<close> gives \<open>example.com\<close> and \<open>noatsign\<close> gives the empty
  string.
\<close>

theorem extract_domain_after_last_at:
  "(ch CHR ''@'' \<notin> set a \<longrightarrow> extract_domain L a = [])
   \<and> (ch CHR ''@'' \<notin> set suf \<longrightarrow> extract_domain L (pre @ ch CHR ''@'' # suf) = lower L suf)
   \<and> extract_domain L (str_of ''user@Example.COM'') = str_of ''example.com''
   \<and> extract_domain L (str_of ''noatsign'') = []"
proof -
  have "ch CHR ''@'' \<notin> set a \<longrightarrow> extract_domain L a = []"
    by (simp add: extract_domain_def split_on_no_separator)
  moreover
  have "ch CHR ''@'' \<notin> set suf \<longrightarrow> extract_domain L (pre @ ch CHR ''@'' # suf) = lower L suf"
    using split_on_last_separator [of "ch CHR ''@''" suf pre]
    by (simp add: extract_domain_def Let_def)
  moreover have "extract_domain L (str_of ''user@Example.COM'') = str_of ''example.com''"
    by code_simp
  moreover have "extract_domain L (str_of ''noatsign'') = []"
    by code_simp
  ultimately show ?thesis
    by blast
qed

theorem extract_domain_after_last_at_witness:
  "ch CHR ''@'' \<notin> set (str_of ''plain.address'')
   \<and> extract_domain example_lib (str_of ''plain.address'') = []
   \<and> ch CHR ''@'' \<notin> set (str_of ''M'' @ [0xDC] @ str_of ''NCHEN.DE'')
   \<and> extract_domain example_lib
        (str_of ''first@second'' @ ch CHR ''@'' # str_of ''M'' @ [0xDC] @ str_of ''NCHEN.DE'')
       = lower example_lib (str_of ''M'' @ [0xDC] @ str_of ''NCHEN.DE'')
   \<and> lower example_lib (str_of ''M'' @ [0xDC] @ str_of ''NCHEN.DE'')
       = str_of ''m'' @ [0xFC] @ str_of ''nchen.de''"
proof -
  have h: "ch CHR ''@'' \<notin> set (str_of ''plain.address'')"
    "ch CHR ''@'' \<notin> set (str_of ''M'' @ [0xDC] @ str_of ''NCHEN.DE'')"
    "lower example_lib (str_of ''M'' @ [0xDC] @ str_of ''NCHEN.DE'')
       = str_of ''m'' @ [0xFC] @ str_of ''nchen.de''"
    by code_simp+
  show ?thesis
    using extract_domain_after_last_at
      [where L = example_lib and a = "str_of ''plain.address''"
         and suf = "str_of ''M'' @ [0xDC] @ str_of ''NCHEN.DE''" and pre = "str_of ''first@second''"]
      h
    by blast
qed

subsection \<open>The link rule\<close>

lemma link_prefix_py_in:
  "link_prefix t \<noteq> None \<longleftrightarrow> prefix (str_of ''http://'') t \<or> prefix (str_of ''https://'') t"
  by (auto simp: link_prefix_def startswith_def prefix_def str_of_def)

lemma contains_link_py_in:
  "contains_link t \<longleftrightarrow> py_in (str_of ''http://'') t \<or> py_in (str_of ''https://'') t"
proof (induction t)
  case Nil
  then show ?case by (simp add: link_prefix_def startswith_def str_of_def)
next
  case (Cons c cs)
  then show ?case
    using link_prefix_py_in [of "c # cs"] by auto
qed

lemma link_loop_list_ex:
  "link_loop L sender_domain lds \<longleftrightarrow>
     list_ex (\<lambda>ld. \<not> py_in sender_domain (lower L ld) \<and> \<not> py_in (lower L ld) sender_domain) lds"
  by (induction lds) (auto simp: Let_def)

lemma rules_3_to_5_cases:
  "rules_3_to_5 L s r subj body_text
     \<in> {email_reply_to, email_urgency, email_sensitive, email_legitimate}"
  by (simp add: rules_3_to_5_def)

lemma external_link_distinct:
  "email_reply_to \<noteq> email_external_link" "email_urgency \<noteq> email_external_link"
  "email_sensitive \<noteq> email_external_link" "email_legitimate \<noteq> email_external_link"
  "email_contains_link \<noteq> email_external_link"
  by (simp_all add: email_verdict_defs)

lemma rules_3_to_5_not_external_link:
  "rules_3_to_5 L s r subj body_text \<noteq> email_external_link"
  using rules_3_to_5_cases [of L s r subj body_text] external_link_distinct by auto

text \<open>
  C5. When no keyword occurs in the lowercased subject or body and the lowercased body
  contains \<open>http://\<close> or \<open>https://\<close>: with a link domain found and a sender domain that is not
  empty, \<open>is_email_phishing\<close> returns the verdict of the external link exactly when one of
  the link domains neither contains the sender domain nor is contained in it; with no link
  domain found or an empty sender domain, it returns the verdict of the link. The sender
  \<open>a@x.com\<close> with the body \<open>click http://evil.com\<close> gets the verdict of the external link.
\<close>

theorem external_link_rule:
  assumes "\<not> list_ex (\<lambda>kw. py_in kw (lower L subject) \<or> py_in kw (lower L body))
               SUSPICIOUS_KEYWORDS"
    and "py_in (str_of ''http://'') (lower L body) \<or> py_in (str_of ''https://'') (lower L body)"
  shows "(findall_link_domains (lower L body) \<noteq> [] \<and> extract_domain L (strip L sender) \<noteq> [] \<longrightarrow>
            (is_email_phishing L sender reply_to subject body = email_external_link \<longleftrightarrow>
               list_ex (\<lambda>ld. \<not> py_in (extract_domain L (strip L sender)) (lower L ld)
                             \<and> \<not> py_in (lower L ld) (extract_domain L (strip L sender)))
                 (findall_link_domains (lower L body))))
         \<and> (findall_link_domains (lower L body) = [] \<or> extract_domain L (strip L sender) = [] \<longrightarrow>
              is_email_phishing L sender reply_to subject body = email_contains_link)
         \<and> is_email_phishing L (str_of ''a@x.com'') [] [] (str_of ''click http://evil.com'')
             = email_external_link"
proof -
  from assms(1) have kw: "keyword_loop SUSPICIOUS_KEYWORDS (lower L subject) (lower L body) = None"
    by (simp add: keyword_loop_None)
  from assms(2) have link: "contains_link (lower L body)"
    by (simp add: contains_link_py_in)
  have a: "findall_link_domains (lower L body) \<noteq> [] \<and> extract_domain L (strip L sender) \<noteq> [] \<longrightarrow>
            (is_email_phishing L sender reply_to subject body = email_external_link \<longleftrightarrow>
               list_ex (\<lambda>ld. \<not> py_in (extract_domain L (strip L sender)) (lower L ld)
                             \<and> \<not> py_in (lower L ld) (extract_domain L (strip L sender)))
                 (findall_link_domains (lower L body)))"
    using kw link
    by (simp add: is_email_phishing_def is_email_phishing_with_def Let_def link_loop_list_ex
        rules_3_to_5_not_external_link)
  have b: "findall_link_domains (lower L body) = [] \<or> extract_domain L (strip L sender) = [] \<longrightarrow>
              is_email_phishing L sender reply_to subject body = email_contains_link"
    using kw link by (auto simp: is_email_phishing_def is_email_phishing_with_def Let_def)
  have c: "is_email_phishing L (str_of ''a@x.com'') [] [] (str_of ''click http://evil.com'')
      = email_external_link"
    by code_simp
  from a b c show ?thesis
    by blast
qed

theorem external_link_rule_witness:
  "\<not> list_ex (\<lambda>kw. py_in kw (lower example_lib [])
                   \<or> py_in kw (lower example_lib (str_of ''see HTTP://WWW.K.COM/page'')))
       SUSPICIOUS_KEYWORDS
   \<and> (py_in (str_of ''http://'') (lower example_lib (str_of ''see HTTP://WWW.K.COM/page''))
        \<or> py_in (str_of ''https://'') (lower example_lib (str_of ''see HTTP://WWW.K.COM/page'')))
   \<and> findall_link_domains (lower example_lib (str_of ''see HTTP://WWW.K.COM/page''))
       = [str_of ''www.k.com'']
   \<and> extract_domain example_lib (strip example_lib (str_of ''a@'' @ [0x212A] @ str_of ''.com'' @ [0xA0]))
       = str_of ''k.com''
   \<and> is_email_phishing example_lib (str_of ''a@'' @ [0x212A] @ str_of ''.com'' @ [0xA0]) [] []
         (str_of ''see HTTP://WWW.K.COM/page'')
       \<noteq> email_external_link
   \<and> \<not> list_ex (\<lambda>kw. py_in kw (lower example_lib [])
                     \<or> py_in kw (lower example_lib (str_of ''see http:// here'')))
         SUSPICIOUS_KEYWORDS
   \<and> (py_in (str_of ''http://'') (lower example_lib (str_of ''see http:// here''))
        \<or> py_in (str_of ''https://'') (lower example_lib (str_of ''see http:// here'')))
   \<and> findall_link_domains (lower example_lib (str_of ''see http:// here'')) = []
   \<and> is_email_phishing example_lib (str_of ''a@x.com'') [] [] (str_of ''see http:// here'')
       = email_contains_link"
proof -
  let ?L = example_lib
  let ?b1 = "str_of ''see HTTP://WWW.K.COM/page''" and ?b2 = "str_of ''see http:// here''"
  let ?s1 = "str_of ''a@'' @ [0x212A] @ str_of ''.com'' @ [0xA0]"
  have k1: "\<not> list_ex (\<lambda>kw. py_in kw (lower ?L []) \<or> py_in kw (lower ?L ?b1)) SUSPICIOUS_KEYWORDS"
    by code_simp
  have l1: "py_in (str_of ''http://'') (lower ?L ?b1) \<or> py_in (str_of ''https://'') (lower ?L ?b1)"
    by code_simp
  have f1: "findall_link_domains (lower ?L ?b1) = [str_of ''www.k.com'']"
    by code_simp
  have d1: "extract_domain ?L (strip ?L ?s1) = str_of ''k.com''"
    by code_simp
  have m1: "\<not> list_ex (\<lambda>ld. \<not> py_in (str_of ''k.com'') (lower ?L ld)
                            \<and> \<not> py_in (lower ?L ld) (str_of ''k.com'')) [str_of ''www.k.com'']"
    by code_simp
  have n1: "[str_of ''www.k.com''] \<noteq> []" "str_of ''k.com'' \<noteq> []"
    by (simp_all add: str_of_def)
  have k2: "\<not> list_ex (\<lambda>kw. py_in kw (lower ?L []) \<or> py_in kw (lower ?L ?b2)) SUSPICIOUS_KEYWORDS"
    by code_simp
  have l2: "py_in (str_of ''http://'') (lower ?L ?b2) \<or> py_in (str_of ''https://'') (lower ?L ?b2)"
    by code_simp
  have f2: "findall_link_domains (lower ?L ?b2) = []"
    by code_simp
  have "is_email_phishing ?L ?s1 [] [] ?b1 \<noteq> email_external_link"
    using external_link_rule [OF k1 l1, where sender = ?s1 and reply_to = "[]"] m1 n1
    unfolding f1 d1 by blast
  moreover have "is_email_phishing ?L (str_of ''a@x.com'') [] [] ?b2 = email_contains_link"
    using external_link_rule [OF k2 l2, where sender = "str_of ''a@x.com''" and reply_to = "[]"] f2
    by blast
  ultimately show ?thesis
    using k1 l1 f1 d1 k2 l2 f2 by blast
qed

subsection \<open>The rule on sensitive information\<close>

lemma keyword_loop_Some_mem:
  "keyword_loop kws subj body_text = Some kw \<Longrightarrow> kw \<in> set kws"
  by (induction kws) (auto split: if_splits)

lemma email_keyword_not_sensitive: "email_keyword kw \<noteq> email_sensitive"
  by (simp add: email_verdict_defs)

lemma sensitive_distinct:
  "email_external_link \<noteq> email_sensitive" "email_contains_link \<noteq> email_sensitive"
  "email_reply_to \<noteq> email_sensitive" "email_urgency \<noteq> email_sensitive"
  "email_legitimate \<noteq> email_sensitive"
  by (simp_all add: email_verdict_defs)

lemma rules_3_to_5_sensitive:
  assumes "rules_3_to_5 L s r subj body_text = email_sensitive"
  shows "list_ex (\<lambda>word. py_in word body_text)
           (map str_of [''enter your password'', ''provide your password'',
              ''send your password'', ''ssn'', ''social security''])"
  using assms sensitive_distinct
  by (auto simp: rules_3_to_5_def split: if_splits)

lemma password_phrases:
  "py_in (str_of ''password'') (str_of ''enter your password'')"
  "py_in (str_of ''password'') (str_of ''provide your password'')"
  "py_in (str_of ''password'') (str_of ''send your password'')"
  by code_simp+

lemma password_ssn_keywords:
  "str_of ''password'' \<in> set SUSPICIOUS_KEYWORDS" "str_of ''ssn'' \<in> set SUSPICIOUS_KEYWORDS"
  by (simp_all add: SUSPICIOUS_KEYWORDS_def)

text \<open>
  C10. When \<open>is_email_phishing\<close> returns the verdict of the sensitive information, the
  lowercased body contains \<open>social security\<close>: each other phrase of rule 5 contains the
  keyword \<open>password\<close> or is the keyword \<open>ssn\<close>, and rule 1 returns on those.
\<close>

theorem sensitive_only_by_social_security:
  assumes "is_email_phishing L sender reply_to subject body = email_sensitive"
  shows "py_in (str_of ''social security'') (lower L body)"
proof -
  have none: "keyword_loop SUSPICIOUS_KEYWORDS (lower L subject) (lower L body) = None"
  proof (cases "keyword_loop SUSPICIOUS_KEYWORDS (lower L subject) (lower L body)")
    case None
    then show ?thesis .
  next
    case (Some kw)
    with assms have "email_keyword kw = email_sensitive"
      by (simp add: is_email_phishing_def is_email_phishing_with_def)
    with email_keyword_not_sensitive show ?thesis
      by blast
  qed
  then have no_kw: "\<forall>kw \<in> set SUSPICIOUS_KEYWORDS. \<not> py_in kw (lower L body)"
    by (auto simp: keyword_loop_None list_ex_iff)
  from no_kw password_ssn_keywords
  have no_password: "\<not> py_in (str_of ''password'') (lower L body)"
    and no_ssn: "\<not> py_in (str_of ''ssn'') (lower L body)"
    by blast+
  from assms none sensitive_distinct
  have "rules_3_to_5 L (strip L sender) (strip L reply_to) (lower L subject) (lower L body)
      = email_sensitive"
    by (auto simp: is_email_phishing_def is_email_phishing_with_def Let_def split: if_splits)
  then have "list_ex (\<lambda>word. py_in word (lower L body))
           (map str_of [''enter your password'', ''provide your password'',
              ''send your password'', ''ssn'', ''social security''])"
    by (rule rules_3_to_5_sensitive)
  moreover have "\<not> py_in (str_of ''enter your password'') (lower L body)"
    "\<not> py_in (str_of ''provide your password'') (lower L body)"
    "\<not> py_in (str_of ''send your password'') (lower L body)"
    using no_password password_phrases py_in_trans by blast+
  ultimately show ?thesis
    using no_ssn by simp
qed

theorem sensitive_only_by_social_security_witness:
  "is_email_phishing example_lib (str_of ''a@x.com'') [] (str_of ''Notice'')
       (str_of ''Send us your Social Security number'') = email_sensitive
   \<and> py_in (str_of ''social security'')
        (lower example_lib (str_of ''Send us your Social Security number''))"
proof -
  have h: "is_email_phishing example_lib (str_of ''a@x.com'') [] (str_of ''Notice'')
       (str_of ''Send us your Social Security number'') = email_sensitive"
    by code_simp
  from sensitive_only_by_social_security [OF h] h show ?thesis
    by blast
qed

subsection \<open>The verdicts that can be returned\<close>

lemma is_phishing_url_verdicts:
  "is_phishing_url L u = Inr v \<Longrightarrow> v \<in> set url_verdicts"
  by (auto simp: is_phishing_url_def url_verdicts_def Let_def split: if_splits sum.splits)

lemma is_email_phishing_verdicts:
  "is_email_phishing L sender reply_to subject body \<in> set email_verdicts"
proof (cases "keyword_loop SUSPICIOUS_KEYWORDS (lower L subject) (lower L body)")
  case None
  then show ?thesis
    using rules_3_to_5_cases [of L "strip L sender" "strip L reply_to" "lower L subject" "lower L body"]
    by (auto simp: is_email_phishing_def is_email_phishing_with_def email_verdicts_def Let_def)
next
  case (Some kw)
  then have "kw \<in> set SUSPICIOUS_KEYWORDS"
    by (rule keyword_loop_Some_mem)
  with Some show ?thesis
    by (simp add: is_email_phishing_def is_email_phishing_with_def email_verdicts_def)
qed

lemma url_verdicts_distinct: "distinct url_verdicts"
  by (simp add: url_verdicts_def url_verdict_defs)

lemma email_verdicts_distinct: "distinct email_verdicts"
  by (simp add: email_verdicts_def email_verdict_defs SUSPICIOUS_KEYWORDS_def)

text \<open>
  C8. The claim is that \<open>is_phishing_url\<close> returns, on every input, one of its six verdict
  strings. On \<open>https://example.com]\<close> it returns none: the first four rules pass, the
  network location has a closing bracket and no opening one, and the \<open>ValueError\<close> of
  \<open>urlparse\<close> leaves the function. Every value that \<open>is_phishing_url\<close> does return is one
  of the six (\<open>is_phishing_url_verdicts\<close>), and \<open>is_email_phishing\<close> always returns one of
  its enumerated verdicts (\<open>is_email_phishing_verdicts\<close>).
\<close>

theorem closing_bracket_no_verdict:
  "is_phishing_url L (str_of ''https://example.com]'') = Inl ValueError"
  by code_simp

section \<open>The query for the recent checks\<close>

lemma order_by_newest_first:
  assumes "order_by_timestamp_desc (table @ [r]) rows"
    and "\<forall>d \<in> set table. uc_timestamp d < uc_timestamp r"
  shows "\<exists>rest. rows = r # rest \<and> order_by_timestamp_desc table rest"
proof -
  from assms(1) have m: "mset rows = mset table + {#r#}"
    and s: "sorted_wrt (\<lambda>a b. uc_timestamp b \<le> uc_timestamp a) rows"
    by (simp_all add: order_by_timestamp_desc_def)
  from m have "rows \<noteq> []"
    by auto
  then obtain x rest where rows: "rows = x # rest"
    by (cases rows) auto
  have "x = r"
  proof (rule ccontr)
    assume "x \<noteq> r"
    have "x \<in># mset rows"
      using rows by simp
    with m have "x \<in># mset table + {#r#}"
      by simp
    with \<open>x \<noteq> r\<close> have "x \<in> set table"
      by simp
    with assms(2) have lt: "uc_timestamp x < uc_timestamp r"
      by blast
    have "r \<in># mset table + {#r#}"
      by simp
    with m have "r \<in># mset rows"
      by simp
    then have "r \<in> set rows"
      by simp
    with rows \<open>x \<noteq> r\<close> have "r \<in> set rest"
      by simp
    with s rows have "uc_timestamp r \<le> uc_timestamp x"
      by simp
    with lt show False
      by simp
  qed
  with m rows have "mset rest = mset table"
    by simp
  moreover from s rows have "sorted_wrt (\<lambda>a b. uc_timestamp b \<le> uc_timestamp a) rest"
    by simp
  ultimately show ?thesis
    using rows \<open>x = r\<close> by (simp add: order_by_timestamp_desc_def)
qed

lemma order_by_newest_rows_first:
  assumes "order_by_timestamp_desc (table @ news) rows"
    and "sorted_wrt (<) (map uc_timestamp news)"
    and "\<forall>d \<in> set table. \<forall>r \<in> set news. uc_timestamp d < uc_timestamp r"
  shows "\<exists>rest. rows = rev news @ rest \<and> order_by_timestamp_desc table rest"
  using assms
proof (induction news arbitrary: rows rule: rev_induct)
  case Nil
  then show ?case by simp
next
  case (snoc r news)
  from snoc.prems(2) have inc: "sorted_wrt (<) (map uc_timestamp news)"
    and last: "\<forall>a \<in> set news. uc_timestamp a < uc_timestamp r"
    by (simp_all add: sorted_wrt_append)
  from snoc.prems(3) last have "\<forall>d \<in> set (table @ news). uc_timestamp d < uc_timestamp r"
    by auto
  moreover from snoc.prems(1) have "order_by_timestamp_desc ((table @ news) @ [r]) rows"
    by simp
  ultimately obtain rest1 where r1: "rows = r # rest1" "order_by_timestamp_desc (table @ news) rest1"
    using order_by_newest_first by blast
  from snoc.prems(3) have "\<forall>d \<in> set table. \<forall>r \<in> set news. uc_timestamp d < uc_timestamp r"
    by simp
  from snoc.IH [OF r1(2) inc this] obtain rest where
    "rest1 = rev news @ rest" "order_by_timestamp_desc table rest"
    by blast
  with r1(1) show ?case
    by simp
qed

lemma append_url_checks_rows:
  "\<exists>news. append_url_checks table entries = table @ news
     \<and> map uc_timestamp news = map fst entries"
proof (induction entries arbitrary: table)
  case Nil
  then show ?case by simp
next
  case (Cons e entries)
  obtain now u res where e: "e = (now, u, res)"
    by (cases e) auto
  from Cons [of "append_url_check table now u res"] obtain news where
    "append_url_checks (append_url_check table now u res) entries
       = append_url_check table now u res @ news"
    "map uc_timestamp news = map fst entries"
    by blast
  then show ?case
    unfolding e
    by (intro exI [of _ "\<lparr>uc_id = next_id (map uc_id table), uc_url = u, uc_result = res,
          uc_timestamp = now\<rparr> # news"]) (simp add: append_url_check_def)
qed


lemma mset_take_subseteq: "mset (take n xs) \<subseteq># mset xs"
proof -
  have "mset xs = mset (take n xs) + mset (drop n xs)"
    by (metis append_take_drop_id mset_append)
  then show ?thesis
    by simp
qed

text \<open>
  C7, as the specification states it, fails on the code: the query orders by the timestamp
  alone. Two checks stored at the same clock reading give a table that the query may
  return in the order of insertion, the row with the smaller id first, so rows of equal
  timestamp are not ordered by id descending, and the row appended last is not the first
  of the five.
\<close>

theorem equal_timestamps_counterexample:
  "check_url example_lib 0 (str_of ''http://a'') []
     = Inr [\<lparr>uc_id = 1, uc_url = str_of ''http://a'', uc_result = url_no_https, uc_timestamp = 0\<rparr>]
   \<and> check_url example_lib 0 (str_of ''http://b'')
        [\<lparr>uc_id = 1, uc_url = str_of ''http://a'', uc_result = url_no_https, uc_timestamp = 0\<rparr>]
     = Inr [\<lparr>uc_id = 1, uc_url = str_of ''http://a'', uc_result = url_no_https, uc_timestamp = 0\<rparr>,
            \<lparr>uc_id = 2, uc_url = str_of ''http://b'', uc_result = url_no_https, uc_timestamp = 0\<rparr>]
   \<and> order_by_timestamp_desc
        [\<lparr>uc_id = 1, uc_url = str_of ''http://a'', uc_result = url_no_https, uc_timestamp = 0\<rparr>,
         \<lparr>uc_id = 2, uc_url = str_of ''http://b'', uc_result = url_no_https, uc_timestamp = 0\<rparr>]
        [\<lparr>uc_id = 1, uc_url = str_of ''http://a'', uc_result = url_no_https, uc_timestamp = 0\<rparr>,
         \<lparr>uc_id = 2, uc_url = str_of ''http://b'', uc_result = url_no_https, uc_timestamp = 0\<rparr>]
   \<and> \<not> spec_timestamp_then_id_desc (limit home_limit
        [\<lparr>uc_id = 1, uc_url = str_of ''http://a'', uc_result = url_no_https, uc_timestamp = 0\<rparr>,
         \<lparr>uc_id = 2, uc_url = str_of ''http://b'', uc_result = url_no_https, uc_timestamp = 0\<rparr>])
   \<and> hd (limit home_limit
        [\<lparr>uc_id = 1, uc_url = str_of ''http://a'', uc_result = url_no_https, uc_timestamp = 0\<rparr>,
         \<lparr>uc_id = 2, uc_url = str_of ''http://b'', uc_result = url_no_https, uc_timestamp = 0\<rparr>])
       \<noteq> \<lparr>uc_id = 2, uc_url = str_of ''http://b'', uc_result = url_no_https, uc_timestamp = 0\<rparr>"
proof -
  let ?r1 = "\<lparr>uc_id = 1, uc_url = str_of ''http://a'', uc_result = url_no_https, uc_timestamp = 0\<rparr>"
  let ?r2 = "\<lparr>uc_id = 2, uc_url = str_of ''http://b'', uc_result = url_no_https, uc_timestamp = 0\<rparr>"
  have "check_url example_lib 0 (str_of ''http://a'') [] = Inr [?r1]"
    by code_simp
  moreover have "check_url example_lib 0 (str_of ''http://b'') [?r1] = Inr [?r1, ?r2]"
    by code_simp
  moreover have "order_by_timestamp_desc [?r1, ?r2] [?r1, ?r2]"
    by (simp add: order_by_timestamp_desc_def)
  moreover have "\<not> spec_timestamp_then_id_desc (limit home_limit [?r1, ?r2])"
    by (simp add: spec_timestamp_then_id_desc_def limit_def home_limit_def)
  moreover have "hd (limit home_limit [?r1, ?r2]) \<noteq> ?r2"
    by (simp add: limit_def home_limit_def)
  ultimately show ?thesis
    by blast
qed

text \<open>
  C7, amended. For every table and every \<open>n\<close>, a result of the query cut to \<open>n\<close> rows has
  \<open>n\<close> rows or, when the table has fewer, all of them; its rows are rows of the table, in
  the order of timestamp descending, the order among rows of equal timestamp left open.
  After the insertion of a row whose timestamp is later than every stored one, that row
  is the first of the result. After insertions at strictly increasing clock readings, all
  later than every stored timestamp, the first \<open>n\<close> rows of the result, for \<open>n\<close> up to the
  number of insertions, are the \<open>n\<close> rows inserted last, the newest first: after ten
  insertions, the five of \<open>home\<close> are the five inserted last.
\<close>

theorem recent_url_checks_newest_first:
  "(order_by_timestamp_desc table rows \<longrightarrow>
      length (limit n rows) = min n (length table)
      \<and> mset (limit n rows) \<subseteq># mset table
      \<and> sorted_wrt (\<lambda>a b. uc_timestamp b \<le> uc_timestamp a) (limit n rows))
   \<and> (order_by_timestamp_desc (append_url_check table now u res) rows
        \<and> (\<forall>d \<in> set table. uc_timestamp d < now) \<and> 0 < n \<longrightarrow>
        hd (limit n rows) = last (append_url_check table now u res)
        \<and> uc_url (hd (limit n rows)) = u \<and> uc_result (hd (limit n rows)) = res
        \<and> uc_timestamp (hd (limit n rows)) = now)
   \<and> (order_by_timestamp_desc (append_url_checks table entries) rows
        \<and> sorted_wrt (<) (map fst entries)
        \<and> (\<forall>d \<in> set table. \<forall>e \<in> set entries. uc_timestamp d < fst e)
        \<and> n \<le> length entries \<longrightarrow>
        limit n rows = take n (rev (drop (length table) (append_url_checks table entries))))"
proof (intro conjI impI)
  assume o: "order_by_timestamp_desc table rows"
  then have "length rows = length table"
    by (auto simp: order_by_timestamp_desc_def dest: mset_eq_length)
  then show "length (limit n rows) = min n (length table)"
    by (simp add: limit_def min.commute)
  from o have "mset rows = mset table"
    by (simp add: order_by_timestamp_desc_def)
  with mset_take_subseteq [of n rows] show "mset (limit n rows) \<subseteq># mset table"
    by (simp add: limit_def)
  from o show "sorted_wrt (\<lambda>a b. uc_timestamp b \<le> uc_timestamp a) (limit n rows)"
    by (simp add: order_by_timestamp_desc_def limit_def sorted_wrt_take)
next
  let ?r = "\<lparr>uc_id = next_id (map uc_id table), uc_url = u, uc_result = res, uc_timestamp = now\<rparr>"
  assume a: "order_by_timestamp_desc (append_url_check table now u res) rows
        \<and> (\<forall>d \<in> set table. uc_timestamp d < now) \<and> 0 < n"
  then have "order_by_timestamp_desc (table @ [?r]) rows"
    and "\<forall>d \<in> set table. uc_timestamp d < uc_timestamp ?r"
    by (simp_all add: append_url_check_def)
  then obtain rest where "rows = ?r # rest"
    using order_by_newest_first by blast
  with a have h: "hd (limit n rows) = ?r"
    by (cases n) (simp_all add: limit_def)
  then show "hd (limit n rows) = last (append_url_check table now u res)"
    by (simp add: append_url_check_def)
  from h show "uc_url (hd (limit n rows)) = u" "uc_result (hd (limit n rows)) = res"
    "uc_timestamp (hd (limit n rows)) = now"
    by simp_all
next
  assume a: "order_by_timestamp_desc (append_url_checks table entries) rows
        \<and> sorted_wrt (<) (map fst entries)
        \<and> (\<forall>d \<in> set table. \<forall>e \<in> set entries. uc_timestamp d < fst e)
        \<and> n \<le> length entries"
  obtain news where news: "append_url_checks table entries = table @ news"
    "map uc_timestamp news = map fst entries"
    using append_url_checks_rows by blast
  from news(2) have len: "length news = length entries"
    by (metis length_map)
  have "\<forall>d \<in> set table. \<forall>r \<in> set news. uc_timestamp d < uc_timestamp r"
  proof (intro ballI)
    fix d r
    assume d: "d \<in> set table" and "r \<in> set news"
    then have "uc_timestamp r \<in> set (map uc_timestamp news)"
      by simp
    with news(2) have "uc_timestamp r \<in> fst ` set entries"
      by simp
    then obtain e where "e \<in> set entries" "uc_timestamp r = fst e"
      by blast
    with a d show "uc_timestamp d < uc_timestamp r"
      by simp
  qed
  moreover from a news have "order_by_timestamp_desc (table @ news) rows"
    and "sorted_wrt (<) (map uc_timestamp news)"
    by simp_all
  ultimately obtain rest where "rows = rev news @ rest"
    using order_by_newest_rows_first by blast
  with a len news(1)
  show "limit n rows = take n (rev (drop (length table) (append_url_checks table entries)))"
    by (simp add: limit_def)
qed

theorem recent_url_checks_newest_first_witness:
  "order_by_timestamp_desc
     (append_url_checks
        [\<lparr>uc_id = 1, uc_url = str_of ''http://old'', uc_result = url_no_https, uc_timestamp = 5\<rparr>]
        (map (\<lambda>t. (t, str_of ''https://example.com'', url_legitimate)) [10, 20, 30, 40, 50, 60, 70, 80, 90, 100]))
     (rev (append_url_checks
        [\<lparr>uc_id = 1, uc_url = str_of ''http://old'', uc_result = url_no_https, uc_timestamp = 5\<rparr>]
        (map (\<lambda>t. (t, str_of ''https://example.com'', url_legitimate)) [10, 20, 30, 40, 50, 60, 70, 80, 90, 100])))
   \<and> length (limit home_limit (rev (append_url_checks
        [\<lparr>uc_id = 1, uc_url = str_of ''http://old'', uc_result = url_no_https, uc_timestamp = 5\<rparr>]
        (map (\<lambda>t. (t, str_of ''https://example.com'', url_legitimate)) [10, 20, 30, 40, 50, 60, 70, 80, 90, 100]))))
       = 5
   \<and> map uc_timestamp (limit home_limit (rev (append_url_checks
        [\<lparr>uc_id = 1, uc_url = str_of ''http://old'', uc_result = url_no_https, uc_timestamp = 5\<rparr>]
        (map (\<lambda>t. (t, str_of ''https://example.com'', url_legitimate)) [10, 20, 30, 40, 50, 60, 70, 80, 90, 100]))))
       = [100, 90, 80, 70, 60]
   \<and> map uc_id (limit home_limit (rev (append_url_checks
        [\<lparr>uc_id = 1, uc_url = str_of ''http://old'', uc_result = url_no_https, uc_timestamp = 5\<rparr>]
        (map (\<lambda>t. (t, str_of ''https://example.com'', url_legitimate)) [10, 20, 30, 40, 50, 60, 70, 80, 90, 100]))))
       = [11, 10, 9, 8, 7]
   \<and> order_by_timestamp_desc
        (append_url_check
           [\<lparr>uc_id = 1, uc_url = str_of ''http://old'', uc_result = url_no_https, uc_timestamp = 5\<rparr>]
           10 (str_of ''https://example.com'') url_legitimate)
        (rev (append_url_check
           [\<lparr>uc_id = 1, uc_url = str_of ''http://old'', uc_result = url_no_https, uc_timestamp = 5\<rparr>]
           10 (str_of ''https://example.com'') url_legitimate))
   \<and> uc_timestamp (hd (limit home_limit (rev (append_url_check
           [\<lparr>uc_id = 1, uc_url = str_of ''http://old'', uc_result = url_no_https, uc_timestamp = 5\<rparr>]
           10 (str_of ''https://example.com'') url_legitimate)))) = 10"
proof -
  let ?table = "[\<lparr>uc_id = 1, uc_url = str_of ''http://old'', uc_result = url_no_https, uc_timestamp = 5\<rparr>]"
  let ?entries = "map (\<lambda>t. (t, str_of ''https://example.com'', url_legitimate))
                     [10, 20, 30, 40, 50, 60, 70, 80, 90, 100 :: int]"
  let ?all = "append_url_checks ?table ?entries"
  let ?one = "append_url_check ?table 10 (str_of ''https://example.com'') url_legitimate"
  have sorted_all: "sorted_wrt (\<lambda>a b. uc_timestamp b \<le> uc_timestamp a) (rev ?all)"
    by code_simp
  then have o_all: "order_by_timestamp_desc ?all (rev ?all)"
    by (simp add: order_by_timestamp_desc_def)
  have inc: "sorted_wrt (<) (map fst ?entries)"
    by code_simp
  have later: "\<forall>d \<in> set ?table. \<forall>e \<in> set ?entries. uc_timestamp d < fst e"
    by code_simp
  have n: "home_limit \<le> length ?entries"
    by code_simp
  have len_all: "length ?all = 11"
    by code_simp
  have top: "take home_limit (rev (drop (length ?table) ?all))
      = map (\<lambda>(i, t). \<lparr>uc_id = i, uc_url = str_of ''https://example.com'', uc_result = url_legitimate,
                         uc_timestamp = t\<rparr>) [(11, 100), (10, 90), (9, 80), (8, 70), (7, 60)]"
    by code_simp
  have sorted_one: "sorted_wrt (\<lambda>a b. uc_timestamp b \<le> uc_timestamp a) (rev ?one)"
    by code_simp
  then have o_one: "order_by_timestamp_desc ?one (rev ?one)"
    by (simp add: order_by_timestamp_desc_def)
  have later_one: "\<forall>d \<in> set ?table. uc_timestamp d < 10"
    by simp
  have pos: "0 < home_limit"
    by (simp add: home_limit_def)
  from recent_url_checks_newest_first [where table = ?all and rows = "rev ?all" and n = home_limit] o_all len_all
  have "length (limit home_limit (rev ?all)) = 5"
    by (simp add: home_limit_def)
  moreover
  from recent_url_checks_newest_first
    [where table = ?table and entries = ?entries and rows = "rev ?all" and n = home_limit]
    o_all inc later n
  have "limit home_limit (rev ?all) = take home_limit (rev (drop (length ?table) ?all))"
    by blast
  with top have "map uc_timestamp (limit home_limit (rev ?all)) = [100, 90, 80, 70, 60]"
    and "map uc_id (limit home_limit (rev ?all)) = [11, 10, 9, 8, 7]"
    by simp_all
  moreover
  from recent_url_checks_newest_first
    [where table = ?table and now = 10 and u = "str_of ''https://example.com''" and res = url_legitimate
       and rows = "rev ?one" and n = home_limit]
    o_one later_one pos
  have "uc_timestamp (hd (limit home_limit (rev ?one))) = 10"
    by blast
  ultimately show ?thesis
    using o_all o_one by blast
qed

section \<open>Determinism\<close>






end
